theory Spec2Isabelle
  imports Main "HOL-Library.List_Lexorder" "HOL-Library.Char_ord"
begin

section \<open>Data model\<close>

text \<open>
  One row of the data frame \<open>df\<close> of \<^verbatim>\<open>dubsviewer.py\<close> after lines 8-11: the columns
  \<^verbatim>\<open>name\<close>, \<^verbatim>\<open>timestamp\<close> (an instant, counted in microseconds, the resolution of
  Python's \<^verbatim>\<open>datetime\<close>) and \<^verbatim>\<open>score\<close> (the column \<^verbatim>\<open>number_int\<close> renamed).
  A data frame is the list of its rows, in row order.
\<close>

record obs =
  name :: string
  timestamp :: int
  score :: int

type_synonym frame = "obs list"

text \<open>Column labels: pandas labels are strings or integers (the default label is 0).\<close>

datatype label = Str string | Num int

text \<open>A Series indexed by player name, with its optional name.\<close>

record series =
  sname :: "label option"
  entries :: "(string \<times> int) list"

text \<open>A two-column result table: the column labels and the rows.\<close>

record gain_table =
  columns :: "label list"
  rows :: "(string \<times> int) list"

section \<open>pandas primitives used by the script\<close>



text \<open>
  \<^verbatim>\<open>sort_values(ascending=False)\<close>: pandas reverses the values, sorts ascending and
  reverses the result. numpy's default sort promises no order among equal keys; the
  model fixes the stable one, which keeps ties in incoming order.
\<close>

definition sort_values_desc :: "('a \<Rightarrow> 'k::linorder) \<Rightarrow> 'a list \<Rightarrow> 'a list" where
  "sort_values_desc key xs = rev (sort_key key (rev xs))"

text \<open>The keys of \<^verbatim>\<open>groupby("name")\<close>: the distinct names, sorted.\<close>

definition group_keys :: "frame \<Rightarrow> string list" where
  "group_keys df = sort (remdups (map name df))"

text \<open>The rows of one group, in row order.\<close>

definition group_of :: "frame \<Rightarrow> string \<Rightarrow> frame" where
  "group_of df k = filter (\<lambda>r. name r = k) df"

text \<open>
  \<^verbatim>\<open>df.groupby("name")["score"].max()\<close> and \<^verbatim>\<open>.min()\<close>: a Series named \<^verbatim>\<open>score\<close>,
  indexed by the sorted keys. A group of \<^verbatim>\<open>groupby\<close> is never empty.
\<close>

definition groupby_score_max :: "frame \<Rightarrow> series" where
  "groupby_score_max df =
     \<lparr>sname = Some (Str ''score''),
      entries = map (\<lambda>k. (k, Max (set (map score (group_of df k))))) (group_keys df)\<rparr>"

definition groupby_score_min :: "frame \<Rightarrow> series" where
  "groupby_score_min df =
     \<lparr>sname = Some (Str ''score''),
      entries = map (\<lambda>k. (k, Min (set (map score (group_of df k))))) (group_keys df)\<rparr>"

text \<open>
  \<^verbatim>\<open>a - b\<close> on two Series: the result keeps the operands' name when both have the
  same name, and has none otherwise. Both operands of the script come from the same
  \<^verbatim>\<open>groupby\<close>, so their indexes are equal and the values are subtracted position by
  position.
\<close>

definition series_sub :: "series \<Rightarrow> series \<Rightarrow> series" where
  "series_sub a b =
     \<lparr>sname = (if sname a = sname b then sname a else None),
      entries = map (\<lambda>((k, x), (_, y)). (k, x - y)) (zip (entries a) (entries b))\<rparr>"

definition series_sort_values_desc :: "series \<Rightarrow> series" where
  "series_sort_values_desc s = s\<lparr>entries := sort_values_desc snd (entries s)\<rparr>"

text \<open>
  \<^verbatim>\<open>Series.reset_index()\<close>: the index becomes the column \<^verbatim>\<open>name\<close> (the index's name
  after \<^verbatim>\<open>groupby("name")\<close>); the values' column is labelled with the Series' name, or
  with 0 when the Series has none.
\<close>

definition reset_index :: "series \<Rightarrow> gain_table" where
  "reset_index s =
     \<lparr>columns = [Str ''name'', (case sname s of None \<Rightarrow> Num 0 | Some l \<Rightarrow> l)],
      rows = entries s\<rparr>"

text \<open>\<^verbatim>\<open>DataFrame.rename(columns=m)\<close>: labels absent from \<open>m\<close> stay as they are.\<close>

definition rename_columns :: "(label \<rightharpoonup> label) \<Rightarrow> gain_table \<Rightarrow> gain_table" where
  "rename_columns m t =
     t\<lparr>columns := map (\<lambda>c. case m c of None \<Rightarrow> c | Some c' \<Rightarrow> c') (columns t)\<rparr>"

text \<open>
  \<^verbatim>\<open>Series.value_counts()\<close>: each distinct value (in order of first appearance) with
  its number of occurrences, sorted by count, descending.
\<close>

definition value_counts :: "string list \<Rightarrow> (string \<times> nat) list" where
  "value_counts xs =
     sort_values_desc snd (map (\<lambda>k. (k, count_list xs k)) (rev (remdups (rev xs))))"

section \<open>The windowed gain leaderboard (lines 22-42)\<close>

text \<open>
  Lines 23-27. \<open>now\<close> is the value \<^verbatim>\<open>datetime.now()\<close> returns; \<open>time_window\<close> is
  \<open>None\<close> for the default argument and \<open>Some w\<close> for a \<^verbatim>\<open>timedelta\<close> of \<open>w\<close>
  microseconds. \<^verbatim>\<open>if time_window:\<close> is false for \<^verbatim>\<open>None\<close> and for the zero timedelta.
\<close>

definition time_test :: "int \<Rightarrow> int option \<Rightarrow> frame \<Rightarrow> frame" where
  "time_test now time_window df =
     (case time_window of
        None \<Rightarrow> df
      | Some w \<Rightarrow>
          if w \<noteq> 0 then (let cutoff = now - w in filter (\<lambda>r. timestamp r \<ge> cutoff) df)
          else df)"

text \<open>Lines 29-30: the allow-list, applied when the set is not empty.\<close>

definition name_test :: "string set \<Rightarrow> frame \<Rightarrow> frame" where
  "name_test filtered_names df_filtered =
     (if filtered_names \<noteq> {} then filter (\<lambda>r. name r \<in> filtered_names) df_filtered
      else df_filtered)"

text \<open>Lines 32-34: only names counted more than once stay.\<close>

definition drop_singletons :: "frame \<Rightarrow> frame" where
  "drop_singletons df_filtered =
     (let counts = value_counts (map name df_filtered);
          valid_names = map fst (filter (\<lambda>c. snd c > 1) counts)
      in filter (\<lambda>r. name r \<in> set valid_names) df_filtered)"

definition window_filter :: "int \<Rightarrow> int option \<Rightarrow> string set \<Rightarrow> frame \<Rightarrow> frame" where
  "window_filter now time_window filtered_names df =
     drop_singletons (name_test filtered_names (time_test now time_window df))"

text \<open>Lines 36-42.\<close>

definition rank_gains :: "frame \<Rightarrow> gain_table" where
  "rank_gains df_filtered =
     (if df_filtered = [] then \<lparr>columns = [Str ''name'', Str ''Gain''], rows = []\<rparr>
      else
        (let latest = groupby_score_max df_filtered;
             earliest = groupby_score_min df_filtered;
             gain = series_sort_values_desc (series_sub latest earliest)
         in rename_columns [Num 0 \<mapsto> Str ''Gain''] (reset_index gain)))"

definition get_gain_leaderboard ::
    "int \<Rightarrow> int option \<Rightarrow> string set \<Rightarrow> frame \<Rightarrow> gain_table" where
  "get_gain_leaderboard now time_window filtered_names df =
     rank_gains (window_filter now time_window filtered_names df)"

section \<open>The rolling max-gain detector (lines 190-207)\<close>




text \<open>
  The detector as claim C1 words it, to compare the loop with: the observations of the
  series \<open>S\<close> in the window \<open>(t\<^sub>a, t\<^sub>a + w]\<close> of an anchor \<open>a\<close>, and the candidate gains
  of the anchors whose window is not empty.
\<close>

definition anchor_window :: "int \<Rightarrow> frame \<Rightarrow> obs \<Rightarrow> obs set" where
  "anchor_window w S a = {b \<in> set S. timestamp a < timestamp b \<and> timestamp b \<le> timestamp a + w}"

definition candidate_gains :: "int \<Rightarrow> frame \<Rightarrow> int set" where
  "candidate_gains w S =
     (\<lambda>a. Max (score ` anchor_window w S a) - score a) ` {a \<in> set S. anchor_window w S a \<noteq> {}}"

section \<open>The seasonal leaderboard (lines 229-249)\<close>

text \<open>
  The format \<^verbatim>\<open>f"{x:,}"\<close> of an integer: its decimal digits in groups of three,
  separated by commas, after the sign.
\<close>

definition digit :: "nat \<Rightarrow> char" where
  "digit d = ''0123456789'' ! (d mod 10)"

fun format_nat :: "nat \<Rightarrow> string" where
  "format_nat n = (if n < 10 then [digit n] else format_nat (n div 10) @ [digit n])"

fun format_grouped :: "nat \<Rightarrow> string" where
  "format_grouped n =
     (if n < 1000 then format_nat n
      else format_grouped (n div 1000) @ '','' @
             [digit (n div 100), digit (n div 10), digit n])"

declare format_nat.simps [simp del] format_grouped.simps [simp del]

definition format_thousands :: "int \<Rightarrow> string" where
  "format_thousands x =
     (if x < 0 then ''-'' @ format_grouped (nat (- x)) else format_grouped (nat x))"

text \<open>A row of the displayed table: the columns left after line 249.\<close>

record seasonal_row =
  Rank :: int
  Player_Name :: string
  Highest_Score_Seen :: string

text \<open>
  Lines 229-249; \<open>selected_users\<close> is the list read from the file (empty when the file
  is missing). The column \<^verbatim>\<open>score\<close> holds integers, so \<^verbatim>\<open>to_numeric\<close> coerces nothing,
  \<^verbatim>\<open>dropna\<close> drops nothing and \<^verbatim>\<open>astype("int64")\<close> changes nothing. The working
  rows are (name, score, score\_formatted); \<^verbatim>\<open>reset_index(drop=True)\<close> numbers the
  sorted rows from 0, and \<^verbatim>\<open>Rank\<close> is that number plus 1; the last step drops the
  column \<^verbatim>\<open>score\<close>.
\<close>

definition seasonal_leaderboard :: "string list \<Rightarrow> frame \<Rightarrow> seasonal_row list" where
  "seasonal_leaderboard selected_users df =
     (let df_selected = filter (\<lambda>r. name r \<in> set selected_users) df;
          max_scores = entries (groupby_score_max df_selected);
          max_scores = map (\<lambda>(n, s). (n, s, format_thousands s)) max_scores;
          max_scores = sort_values_desc (\<lambda>(n, s, f). s) max_scores;
          max_scores = map (\<lambda>(i, (n, s, f)). (int i + 1, n, s, f)) (enumerate 0 max_scores)
      in map (\<lambda>(i, n, s, f). \<lparr>Rank = i, Player_Name = n, Highest_Score_Seen = f\<rparr>) max_scores)"

text \<open>
  For the proofs: the sorted working rows of \<open>seasonal_leaderboard\<close>, with each maximum
  taken over the player's group in the whole frame.
\<close>

definition seasonal_sorted :: "string list \<Rightarrow> frame \<Rightarrow> (string \<times> int \<times> string) list" where
  "seasonal_sorted sel df =
     sort_values_desc (\<lambda>(n, s, f). s)
       (map (\<lambda>k. (k, Max (set (map score (group_of df k))),
                   format_thousands (Max (set (map score (group_of df k))))))
         (group_keys (filter (\<lambda>r. name r \<in> set sel) df)))"

section \<open>The progression data (lines 120-135)\<close>

text \<open>
  Lines 120 and 142: the names of the \<open>n\<close> players with the highest maximal score
  (\<^verbatim>\<open>groupby("name")["score"].max().sort_values(ascending=False).head(n).index\<close>).
\<close>

definition top_names :: "nat \<Rightarrow> frame \<Rightarrow> string list" where
  "top_names n df = take n (map fst (sort_values_desc snd (entries (groupby_score_max df))))"

text \<open>
  A cell of a float column: \<open>None\<close> is NaN. \<^verbatim>\<open>max\<close> of no value at all is NaN.
\<close>

definition series_max :: "int list \<Rightarrow> int option" where
  "series_max xs = (if xs = [] then None else Some (Max (set xs)))"

text \<open>
  The pivoted frame: the index (the time axis) and, per player, the column of cells,
  one cell per index entry.
\<close>

record pivot =
  index :: "int list"
  cols :: "(string \<times> int option list) list"

text \<open>
  \<^verbatim>\<open>pivot_table(index="timestamp", columns="name", values="score", aggfunc="max")\<close>:
  the distinct timestamps and the distinct names, both sorted; a cell holds the maximum
  of the scores of the rows with that timestamp and name, NaN when there is none. (A
  column with no value at all would be dropped; every name has a row.)
\<close>

definition pivot_table :: "frame \<Rightarrow> pivot" where
  "pivot_table d =
     (let idx = sort (remdups (map timestamp d));
          names = sort (remdups (map name d))
      in \<lparr>index = idx,
          cols = map (\<lambda>n. (n, map (\<lambda>t. series_max
                    (map score (filter (\<lambda>r. timestamp r = t \<and> name r = n) d))) idx)) names\<rparr>)"

text \<open>\<^verbatim>\<open>sort_index()\<close>: the rows reordered by index value.\<close>

definition sort_index :: "pivot \<Rightarrow> pivot" where
  "sort_index p =
     \<lparr>index = sort (index p),
      cols = map (\<lambda>(n, c). (n, map snd (sort_key fst (zip (index p) c)))) (cols p)\<rparr>"

text \<open>\<^verbatim>\<open>ffill()\<close>, down one column: a NaN cell takes the last value seen above it.\<close>

fun ffill_from :: "int option \<Rightarrow> int option list \<Rightarrow> int option list" where
  "ffill_from prev [] = []"
| "ffill_from prev (v # vs) =
     (case v of None \<Rightarrow> prev # ffill_from prev vs
              | Some x \<Rightarrow> Some x # ffill_from (Some x) vs)"

definition ffill :: "pivot \<Rightarrow> pivot" where
  "ffill p = p\<lparr>cols := map (\<lambda>(n, c). (n, ffill_from None c)) (cols p)\<rparr>"

text \<open>
  Line 132, \<^verbatim>\<open>df_pivot[df_pivot < 0] = 0\<close>: NaN \<open><\<close> 0 is false, so a NaN cell stays NaN.
\<close>

definition clamp_negative :: "pivot \<Rightarrow> pivot" where
  "clamp_negative p =
     p\<lparr>cols := map (\<lambda>(n, c). (n, map (map_option (\<lambda>x. if x < 0 then 0 else x)) c)) (cols p)\<rparr>"

text \<open>
  A row of \<open>df_long\<close>: the columns \<^verbatim>\<open>timestamp\<close>, \<^verbatim>\<open>Player\<close>, \<^verbatim>\<open>Score\<close>.
  \<^verbatim>\<open>reset_index().melt(id_vars=["timestamp"], ...)\<close> lists the columns one after the
  other, each with one row per index entry; a NaN cell gives a row with a NaN score.
\<close>

type_synonym point = "int \<times> string \<times> int option"

definition melt :: "pivot \<Rightarrow> point list" where
  "melt p = concat (map (\<lambda>(n, c). map (\<lambda>(t, v). (t, n, v)) (zip (index p) c)) (cols p))"

text \<open>Lines 120-135: \<open>df_long\<close>.\<close>

definition progression :: "frame \<Rightarrow> point list" where
  "progression df =
     (let top20_names = top_names 20 df;
          df_top20 = filter (\<lambda>r. name r \<in> set top20_names) df;
          df_pivot = pivot_table df_top20;
          df_pivot = ffill (sort_index df_pivot);
          df_pivot = clamp_negative df_pivot
      in melt df_pivot)"

text \<open>
  For claim C7: the long-form rows read back as observations at the same instants. A
  row with a NaN score is no observation.
\<close>

definition as_observations :: "point list \<Rightarrow> frame" where
  "as_observations pts =
     concat (map (\<lambda>(t, n, v). case v of None \<Rightarrow> []
                   | Some x \<Rightarrow> [\<lparr>name = n, timestamp = t, score = x\<rparr>]) pts)"

section \<open>Loading the data (lines 8-11) and the whole script\<close>

text \<open>
  A row of the CSV file as \<^verbatim>\<open>read_csv\<close> delivers it: the timestamp is still a string.
\<close>

record csv_row =
  csv_name :: string
  csv_timestamp :: string
  number_int :: int

datatype error = ValueError

text \<open>
  Line 10, \<^verbatim>\<open>pd.to_datetime(column, format="%Y-%m-%d %H:%M:%S")\<close>, with the default
  \<^verbatim>\<open>errors="raise"\<close>. \<open>strptime\<close> is the library's parser for the format (\<open>None\<close> for
  a string that does not match it); the first string it rejects raises \<^verbatim>\<open>ValueError\<close>
  and no column is returned.
\<close>

fun to_datetime :: "(string \<Rightarrow> int option) \<Rightarrow> string list \<Rightarrow> error + int list" where
  "to_datetime strptime [] = Inr []"
| "to_datetime strptime (s # ss) =
     (case strptime s of
        None \<Rightarrow> Inl ValueError
      | Some t \<Rightarrow>
          (case to_datetime strptime ss of
             Inl e \<Rightarrow> Inl e
           | Inr ts \<Rightarrow> Inr (t # ts)))"

text \<open>Lines 8-11: the frame \<open>df\<close>, or the exception that ends the script.\<close>

definition load_frame :: "(string \<Rightarrow> int option) \<Rightarrow> csv_row list \<Rightarrow> error + frame" where
  "load_frame strptime csv =
     (case to_datetime strptime (map csv_timestamp csv) of
        Inl e \<Rightarrow> Inl e
      | Inr ts \<Rightarrow>
          Inr (map (\<lambda>(r, t). \<lparr>name = csv_name r, timestamp = t, score = number_int r\<rparr>)
                 (zip csv ts)))"

text \<open>What the script computes for display once \<open>df\<close> is loaded.\<close>

record page =
  df_1d :: gain_table
  df_7d :: gain_table
  df_all :: gain_table
  df_custom :: gain_table
  df_long :: "point list"
  biggest_changes_rows :: "(string \<times> int) list"
  max_scores :: "seasonal_row list"






section \<open>Auxiliary functions for the progression proofs\<close>

text \<open>
  The cell of \<open>pivot_table d\<close> for player \<open>n\<close> at instant \<open>t\<close>; the value forward fill
  leaves at \<open>t\<close> in a column \<open>map g I\<close> (the value at the latest instant of \<open>I\<close> up to
  \<open>t\<close> that has one); and the final value of the cell, after the clamp.
\<close>

definition cellv :: "frame \<Rightarrow> string \<Rightarrow> int \<Rightarrow> int option" where
  "cellv d n t = series_max (map score (filter (\<lambda>r. timestamp r = t \<and> name r = n) d))"

definition last_seen :: "(int \<Rightarrow> int option) \<Rightarrow> int list \<Rightarrow> int option \<Rightarrow> int \<Rightarrow> int option" where
  "last_seen g I p t =
     (if {t' \<in> set I. t' \<le> t \<and> g t' \<noteq> None} = {} then p
      else g (Max {t' \<in> set I. t' \<le> t \<and> g t' \<noteq> None}))"

definition filled :: "frame \<Rightarrow> string \<Rightarrow> int \<Rightarrow> int option" where
  "filled d n t =
     map_option (\<lambda>x. if x < 0 then 0 else x)
       (last_seen (cellv d n) (sort (remdups (map timestamp d))) None t)"

text \<open>
  The value of a cell as the amended claim C3 words it: nothing before the player's
  first observation; otherwise the largest score among the player's observations at
  their latest instant up to \<open>t\<close>, a negative one replaced by 0.
\<close>

definition carried_value :: "frame \<Rightarrow> string \<Rightarrow> int \<Rightarrow> int option" where
  "carried_value df n t =
     (let prior = {r \<in> set df. name r = n \<and> timestamp r \<le> t}
      in if prior = {} then None
         else Some (max 0 (Max (score ` {r \<in> prior. timestamp r = Max (timestamp ` prior)}))))"

section \<open>The session: objects, the variable \<open>df\<close> and the four computations\<close>





















section \<open>Example inputs\<close>

text \<open>The scenario of the specification's section 8, with instants 0, 1, 2.\<close>

definition scenario_df :: frame where
  "scenario_df =
     [\<lparr>name = ''A'', timestamp = 0, score = 10\<rparr>,
      \<lparr>name = ''A'', timestamp = 1, score = 15\<rparr>,
      \<lparr>name = ''A'', timestamp = 2, score = 12\<rparr>,
      \<lparr>name = ''B'', timestamp = 0, score = 5\<rparr>,
      \<lparr>name = ''B'', timestamp = 1, score = 5\<rparr>]"




text \<open>The seasonal scenario of the specification: only X has observations.\<close>

definition seasonal_df :: frame where
  "seasonal_df =
     [\<lparr>name = ''X'', timestamp = 0, score = 40\<rparr>,
      \<lparr>name = ''Z'', timestamp = 0, score = 1500\<rparr>,
      \<lparr>name = ''X'', timestamp = 1, score = 42\<rparr>,
      \<lparr>name = ''W'', timestamp = 1, score = 99\<rparr>]"


text \<open>
  Two players: A is first seen at 0 (twice, with a negative score), B at 2.
\<close>

definition progression_df :: frame where
  "progression_df =
     [\<lparr>name = ''A'', timestamp = 0, score = - 5\<rparr>,
      \<lparr>name = ''A'', timestamp = 0, score = - 7\<rparr>,
      \<lparr>name = ''B'', timestamp = 2, score = 5\<rparr>,
      \<lparr>name = ''A'', timestamp = 1, score = 3\<rparr>,
      \<lparr>name = ''B'', timestamp = 4, score = 8\<rparr>,
      \<lparr>name = ''A'', timestamp = 3, score = 6\<rparr>]"





section \<open>Basic facts\<close>

lemma set_sort_values_desc [simp]: "set (sort_values_desc key xs) = set xs"
  by (simp add: sort_values_desc_def)

lemma set_value_counts:
  "set (value_counts xs) = (\<lambda>k. (k, count_list xs k)) ` set xs"
  by (simp add: value_counts_def)

lemma set_drop_singletons:
  "set (drop_singletons d) = {r \<in> set d. count_list (map name d) (name r) > 1}"
  by (force simp: drop_singletons_def Let_def set_value_counts)

lemma rows_rank_gains:
  "rows (rank_gains d) =
     sort_values_desc snd (map (\<lambda>k. (k, Max (set (map score (group_of d k))) - Min (set (map score (group_of d k))))) (group_keys d))"
  by (simp add: rank_gains_def Let_def rename_columns_def reset_index_def
      series_sort_values_desc_def series_sub_def groupby_score_max_def groupby_score_min_def
      zip_map_map zip_same_conv_map o_def group_keys_def sort_values_desc_def)

lemma set_group_keys [simp]: "set (group_keys d) = name ` set d"
  by (simp add: group_keys_def)

lemma distinct_group_keys [simp]: "distinct (group_keys d)"
  by (simp add: group_keys_def)

lemma rows_rank_gains_fst: "fst ` set (rows (rank_gains d)) = name ` set d"
  by (force simp: rows_rank_gains)

lemma set_window_filter:
  "set (window_filter now tw ns df) =
     {r \<in> set (name_test ns (time_test now tw df)).
        count_list (map name (name_test ns (time_test now tw df))) (name r) > 1}"
  by (simp add: window_filter_def set_drop_singletons)

section \<open>The window filter drops players with fewer than two observations\<close>

text \<open>
  Claim C6. Whatever the window (a duration or all time) and the allow-list, a player
  with fewer than 2 observations left after the time test and the allow-list test has
  no row in the frame the gains are computed from, and no row in the leaderboard.
\<close>

theorem window_filter_drops_below_two:
  assumes "count_list (map name (name_test filtered_names (time_test now time_window df))) p < 2"
  shows "p \<notin> name ` set (window_filter now time_window filtered_names df) \<and>
         p \<notin> fst ` set (rows (get_gain_leaderboard now time_window filtered_names df))"
  using assms by (auto simp: get_gain_leaderboard_def rows_rank_gains_fst set_window_filter)

text \<open>
  An instance: with the reference instant 100 and a window of 50, player B keeps one
  observation (the one at 10 is too old) and is dropped; only A is ranked.
\<close>

theorem window_filter_drops_below_two_witness:
  "count_list (map name (name_test {} (time_test 100 (Some 50)
       [\<lparr>name = ''A'', timestamp = 60, score = 10\<rparr>, \<lparr>name = ''A'', timestamp = 70, score = 15\<rparr>,
        \<lparr>name = ''B'', timestamp = 10, score = 1\<rparr>, \<lparr>name = ''B'', timestamp = 80, score = 5\<rparr>]))) ''B'' < 2
   \<and> ''B'' \<notin> name ` set (window_filter 100 (Some 50) {}
       [\<lparr>name = ''A'', timestamp = 60, score = 10\<rparr>, \<lparr>name = ''A'', timestamp = 70, score = 15\<rparr>,
        \<lparr>name = ''B'', timestamp = 10, score = 1\<rparr>, \<lparr>name = ''B'', timestamp = 80, score = 5\<rparr>])
   \<and> ''B'' \<notin> fst ` set (rows (get_gain_leaderboard 100 (Some 50) {}
       [\<lparr>name = ''A'', timestamp = 60, score = 10\<rparr>, \<lparr>name = ''A'', timestamp = 70, score = 15\<rparr>,
        \<lparr>name = ''B'', timestamp = 10, score = 1\<rparr>, \<lparr>name = ''B'', timestamp = 80, score = 5\<rparr>]))
   \<and> rows (get_gain_leaderboard 100 (Some 50) {}
       [\<lparr>name = ''A'', timestamp = 60, score = 10\<rparr>, \<lparr>name = ''A'', timestamp = 70, score = 15\<rparr>,
        \<lparr>name = ''B'', timestamp = 10, score = 1\<rparr>, \<lparr>name = ''B'', timestamp = 80, score = 5\<rparr>]) = [(''A'', 5)]"
proof -
  have h: "count_list (map name (name_test {} (time_test 100 (Some 50)
       [\<lparr>name = ''A'', timestamp = 60, score = 10\<rparr>, \<lparr>name = ''A'', timestamp = 70, score = 15\<rparr>,
        \<lparr>name = ''B'', timestamp = 10, score = 1\<rparr>, \<lparr>name = ''B'', timestamp = 80, score = 5\<rparr>]))) ''B'' < 2"
    by (simp add: name_test_def time_test_def)
  have r: "rows (get_gain_leaderboard 100 (Some 50) {}
       [\<lparr>name = ''A'', timestamp = 60, score = 10\<rparr>, \<lparr>name = ''A'', timestamp = 70, score = 15\<rparr>,
        \<lparr>name = ''B'', timestamp = 10, score = 1\<rparr>, \<lparr>name = ''B'', timestamp = 80, score = 5\<rparr>]) = [(''A'', 5)]"
    by code_simp
  from window_filter_drops_below_two [OF h] h r show ?thesis by blast
qed


lemma sorted_desc_sort_values_desc:
  "sorted_wrt (\<lambda>a b. a \<ge> b) (map key (sort_values_desc key xs))"
  by (simp add: sort_values_desc_def rev_map [symmetric] sorted_wrt_rev)

lemma distinct_map_fst_sort_values_desc:
  "distinct (map fst (sort_values_desc key xs)) = distinct (map fst xs)"
  by (simp add: sort_values_desc_def rev_map [symmetric] distinct_map)



section \<open>The time test has no upper bound\<close>

text \<open>
  Claim C10. For a window of any duration \<open>w \<ge> 0\<close>, an observation stamped strictly
  after the reference instant \<open>now\<close> passes the time test (only the lower bound
  \<open>now - w\<close> is tested); when its player passes the allow-list and has more than one
  observation left, the observation is in the frame the gains are computed from.
\<close>

theorem future_observation_passes_time_test:
  assumes "r \<in> set df" and "now < timestamp r" and "0 \<le> w"
  shows "r \<in> set (time_test now (Some w) df) \<and>
         ((filtered_names = {} \<or> name r \<in> filtered_names) \<and>
          1 < count_list (map name (name_test filtered_names (time_test now (Some w) df))) (name r)
          \<longrightarrow> r \<in> set (window_filter now (Some w) filtered_names df))"
  using assms by (auto simp: set_window_filter time_test_def name_test_def Let_def)

text \<open>
  An instance: reference instant 100, window 20; the observation at 110 lies in the
  future and takes part in the gain 50 - 5 = 45.
\<close>

theorem future_observation_passes_time_test_witness:
  "\<lparr>name = ''A'', timestamp = 110, score = 50\<rparr> \<in>
      set [\<lparr>name = ''A'', timestamp = 90, score = 5\<rparr>, \<lparr>name = ''A'', timestamp = 110, score = 50\<rparr>] \<and>
   (100::int) < timestamp \<lparr>name = ''A'', timestamp = 110, score = 50\<rparr> \<and> (0::int) \<le> 20 \<and>
   \<lparr>name = ''A'', timestamp = 110, score = 50\<rparr> \<in> set (time_test 100 (Some 20)
      [\<lparr>name = ''A'', timestamp = 90, score = 5\<rparr>, \<lparr>name = ''A'', timestamp = 110, score = 50\<rparr>]) \<and>
   \<lparr>name = ''A'', timestamp = 110, score = 50\<rparr> \<in> set (window_filter 100 (Some 20) {}
      [\<lparr>name = ''A'', timestamp = 90, score = 5\<rparr>, \<lparr>name = ''A'', timestamp = 110, score = 50\<rparr>]) \<and>
   rows (get_gain_leaderboard 100 (Some 20) {}
      [\<lparr>name = ''A'', timestamp = 90, score = 5\<rparr>, \<lparr>name = ''A'', timestamp = 110, score = 50\<rparr>]) = [(''A'', 45)]"
proof -
  let ?r = "\<lparr>name = ''A'', timestamp = 110, score = 50\<rparr>"
  let ?df = "[\<lparr>name = ''A'', timestamp = 90, score = 5\<rparr>, ?r]"
  have 1: "?r \<in> set ?df" by simp
  have 2: "100 < timestamp ?r" by simp
  have 3: "(0::int) \<le> 20" by simp
  have 4: "1 < count_list (map name (name_test {} (time_test 100 (Some 20) ?df))) (name ?r)"
    by (simp add: name_test_def time_test_def)
  have 5: "rows (get_gain_leaderboard 100 (Some 20) {} ?df) = [(''A'', 45)]"
    by code_simp
  from future_observation_passes_time_test [OF 1 2 3, of "{}"] 1 2 3 4 5
  show ?thesis by blast
qed

section \<open>The gain ranking\<close>



lemma scenario_window: "window_filter 0 None {} scenario_df = scenario_df"
  by code_simp



section \<open>The label of the gain column\<close>

lemma columns_rank_gains_nonempty:
  "d \<noteq> [] \<Longrightarrow> columns (rank_gains d) = [Str ''name'', Str ''score'']"
  by (simp add: rank_gains_def Let_def rename_columns_def reset_index_def
      series_sort_values_desc_def series_sub_def groupby_score_max_def groupby_score_min_def)

text \<open>
  Claim C9 says the gain is exposed under the label \<^verbatim>\<open>Gain\<close> in the empty and in the
  non-empty result alike. The empty result is built with the columns \<^verbatim>\<open>name\<close>,
  \<^verbatim>\<open>Gain\<close>; in the non-empty result the Series is named \<^verbatim>\<open>score\<close>, so
  \<^verbatim>\<open>reset_index\<close> labels the column \<^verbatim>\<open>score\<close>, and \<^verbatim>\<open>rename(columns={0: "Gain"})\<close>
  finds no column 0 to rename.
\<close>

theorem gain_column_label_differs:
  "columns (get_gain_leaderboard 0 None {} []) = [Str ''name'', Str ''Gain''] \<and>
   columns (get_gain_leaderboard 0 None {} scenario_df) = [Str ''name'', Str ''score'']"
proof
  show "columns (get_gain_leaderboard 0 None {} []) = [Str ''name'', Str ''Gain'']"
    by code_simp
  have "window_filter 0 None {} scenario_df \<noteq> []"
    by (simp add: scenario_window) (simp add: scenario_df_def)
  then show "columns (get_gain_leaderboard 0 None {} scenario_df) = [Str ''name'', Str ''score'']"
    by (simp add: get_gain_leaderboard_def columns_rank_gains_nonempty)
qed

section \<open>The rolling max-gain detector\<close>





lemma finite_candidate_gains [simp]: "finite (candidate_gains w S)"
  by (simp add: candidate_gains_def)








section \<open>The seasonal leaderboard\<close>

lemma map_enumerate_rank: "map (\<lambda>i. int i + 1) [0..<n] = [1..int n]"
proof (induction n)
  case 0
  then show ?case by simp
next
  case (Suc n)
  have "[1..int (Suc n)] = [1..int n] @ [int n + 1]"
    using upto_rec2 [of 1 "int n + 1"] by (simp add: add.commute)
  with Suc show ?case by simp
qed

lemma group_of_filter_name:
  "k \<in> A \<Longrightarrow> group_of (filter (\<lambda>r. name r \<in> A) df) k = group_of df k"
  by (auto simp: group_of_def intro!: filter_cong)

lemma seasonal_leaderboard_eq:
  "seasonal_leaderboard sel df =
     map (\<lambda>(i, n, s, f). \<lparr>Rank = int i + 1, Player_Name = n, Highest_Score_Seen = f\<rparr>)
       (enumerate 0 (seasonal_sorted sel df))"
proof -
  let ?d = "filter (\<lambda>r. name r \<in> set sel) df"
  let ?ks = "group_keys ?d"
  have A: "entries (groupby_score_max ?d)
      = map (\<lambda>k. (k, Max (set (map score (group_of ?d k))))) ?ks"
    by (simp add: groupby_score_max_def)
  have B: "map (\<lambda>(n, s). (n, s, format_thousands s))
          (map (\<lambda>k. (k, Max (set (map score (group_of ?d k))))) ?ks)
      = map (\<lambda>k. (k, Max (set (map score (group_of df k))),
                   format_thousands (Max (set (map score (group_of df k)))))) ?ks"
    unfolding map_map o_def split_def
    by (rule map_cong [OF refl]) (auto simp: group_of_filter_name)
  show ?thesis
    unfolding seasonal_leaderboard_def Let_def seasonal_sorted_def A B
    by (simp add: split_def)
qed

lemma map_fst_enumerate0:
  "map (\<lambda>x. g (fst x)) (enumerate 0 xs) = map g [0..<length xs]"
proof -
  have "map (\<lambda>x. g (fst x)) (enumerate 0 xs) = map g (map fst (enumerate 0 xs))"
    by (simp only: map_map o_def)
  also have "map fst (enumerate 0 xs) = [0..<0 + length xs]"
    by (rule map_fst_enumerate)
  finally show ?thesis unfolding add_0 .
qed

lemma map_snd_enumerate0:
  "map (\<lambda>x. g (snd x)) (enumerate 0 xs) = map g xs"
proof -
  have "map (\<lambda>x. g (snd x)) (enumerate n xs) = map g xs" for n
    by (induction xs arbitrary: n) simp_all
  from this [of 0] show ?thesis .
qed

lemma map_Rank: "map Rank (seasonal_leaderboard sel df) = [1..int (length (seasonal_sorted sel df))]"
proof -
  have "map Rank (seasonal_leaderboard sel df)
      = map (\<lambda>x. int (fst x) + 1) (enumerate 0 (seasonal_sorted sel df))"
    by (simp add: seasonal_leaderboard_eq o_def split_def)
  also have "\<dots> = map (\<lambda>i. int i + 1) [0..<length (seasonal_sorted sel df)]"
    by (rule map_fst_enumerate0)
  also have "\<dots> = [1..int (length (seasonal_sorted sel df))]"
    by (rule map_enumerate_rank)
  finally show ?thesis .
qed

lemma length_seasonal_sorted:
  "length (seasonal_sorted sel df) = card (set sel \<inter> name ` set df)"
proof -
  let ?ks = "group_keys (filter (\<lambda>r. name r \<in> set sel) df)"
  have "length (seasonal_sorted sel df) = length ?ks"
    by (simp add: seasonal_sorted_def sort_values_desc_def)
  also have "\<dots> = card (set ?ks)"
    by (rule distinct_card [symmetric]) (rule distinct_group_keys)
  also have "set ?ks = set sel \<inter> name ` set df"
    by auto
  finally show ?thesis .
qed

lemma map_Player_Name:
  "map Player_Name (seasonal_leaderboard sel df) = map fst (seasonal_sorted sel df)"
proof -
  have "map Player_Name (seasonal_leaderboard sel df)
      = map (\<lambda>x. fst (snd x)) (enumerate 0 (seasonal_sorted sel df))"
    by (simp add: seasonal_leaderboard_eq o_def split_def)
  also have "\<dots> = map fst (seasonal_sorted sel df)"
    by (rule map_snd_enumerate0)
  finally show ?thesis .
qed

lemma map_Highest:
  "map Highest_Score_Seen (seasonal_leaderboard sel df)
     = map (\<lambda>x. snd (snd x)) (seasonal_sorted sel df)"
proof -
  have "map Highest_Score_Seen (seasonal_leaderboard sel df)
      = map (\<lambda>x. snd (snd (snd x))) (enumerate 0 (seasonal_sorted sel df))"
    by (simp add: seasonal_leaderboard_eq o_def split_def)
  also have "\<dots> = map (\<lambda>x. snd (snd x)) (seasonal_sorted sel df)"
    by (rule map_snd_enumerate0)
  finally show ?thesis .
qed

lemma seasonal_sorted_entry:
  assumes "x \<in> set (seasonal_sorted sel df)"
  shows "fst (snd x) = Max (score ` set (group_of df (fst x))) \<and>
         snd (snd x) = format_thousands (Max (score ` set (group_of df (fst x))))"
  using assms by (auto simp: seasonal_sorted_def)

lemma seasonal_sorted_desc:
  "sorted_wrt (\<lambda>a b. a \<ge> b) (map (\<lambda>x. fst (snd x)) (seasonal_sorted sel df))"
proof -
  have eq: "(\<lambda>(n :: string, s :: int, f :: string). s) = (\<lambda>x. fst (snd x))"
    by (simp add: fun_eq_iff)
  show ?thesis
    unfolding seasonal_sorted_def eq by (rule sorted_desc_sort_values_desc)
qed

lemma seasonal_sorted_names:
  "distinct (map fst (seasonal_sorted sel df))"
  "set (map fst (seasonal_sorted sel df)) = set sel \<inter> name ` set df"
proof -
  let ?ks = "group_keys (filter (\<lambda>r. name r \<in> set sel) df)"
  let ?f = "\<lambda>k. (k, Max (set (map score (group_of df k))),
                   format_thousands (Max (set (map score (group_of df k)))))"
  have m: "map fst (map ?f ?ks) = ?ks"
    by (simp add: o_def)
  show "distinct (map fst (seasonal_sorted sel df))"
    unfolding seasonal_sorted_def distinct_map_fst_sort_values_desc m
    by (rule distinct_group_keys)
  have "set (map fst (seasonal_sorted sel df)) = fst ` set (map ?f ?ks)"
    unfolding seasonal_sorted_def by (simp only: set_map set_sort_values_desc)
  also have "\<dots> = set (map fst (map ?f ?ks))"
    by (simp only: set_map)
  also have "\<dots> = set ?ks"
    by (simp only: m)
  also have "\<dots> = set sel \<inter> name ` set df"
    by auto
  finally show "set (map fst (seasonal_sorted sel df)) = set sel \<inter> name ` set df" .
qed

text \<open>
  Claim C5. For every frame and every list of selected names: the ranks, in output
  order, are exactly 1, 2, ..., N, where N is the number of distinct selected names
  that have at least one observation; the listed players are exactly those names, each
  once (a selected name with no observation has no row, and nothing fails: the
  function is total); the rows are in descending order of the players' all-time maximal
  scores; and the displayed score of a row is that maximum, formatted.
\<close>

theorem seasonal_ranks_consecutive_sorted:
  "map Rank (seasonal_leaderboard selected_users df)
      = [1..int (card (set selected_users \<inter> name ` set df))] \<and>
   distinct (map Player_Name (seasonal_leaderboard selected_users df)) \<and>
   set (map Player_Name (seasonal_leaderboard selected_users df))
      = set selected_users \<inter> name ` set df \<and>
   sorted_wrt (\<lambda>a b. a \<ge> b)
     (map (\<lambda>e. Max (score ` set (group_of df (Player_Name e))))
        (seasonal_leaderboard selected_users df)) \<and>
   map Highest_Score_Seen (seasonal_leaderboard selected_users df)
      = map (\<lambda>e. format_thousands (Max (score ` set (group_of df (Player_Name e)))))
          (seasonal_leaderboard selected_users df)"
proof -
  let ?out = "seasonal_leaderboard selected_users df"
  let ?S = "seasonal_sorted selected_users df"
  let ?h = "\<lambda>n. Max (score ` set (group_of df n))"
  have s: "map (\<lambda>x. fst (snd x)) ?S = map (\<lambda>x. ?h (fst x)) ?S"
    by (rule map_cong [OF refl]) (simp add: seasonal_sorted_entry)
  have f: "map (\<lambda>x. snd (snd x)) ?S = map (\<lambda>x. format_thousands (?h (fst x))) ?S"
    by (rule map_cong [OF refl]) (simp add: seasonal_sorted_entry)
  have h: "map (\<lambda>e. g (Player_Name e)) ?out = map (\<lambda>x. g (fst x)) ?S" for g :: "string \<Rightarrow> 'b"
  proof -
    have "map g (map Player_Name ?out) = map g (map fst ?S)"
      by (simp only: map_Player_Name)
    then show ?thesis by (simp add: o_def)
  qed
  have 1: "map Rank ?out = [1..int (card (set selected_users \<inter> name ` set df))]"
    by (simp only: map_Rank length_seasonal_sorted)
  have 2: "distinct (map Player_Name ?out)"
    by (simp only: map_Player_Name seasonal_sorted_names)
  have 3: "set (map Player_Name ?out) = set selected_users \<inter> name ` set df"
    by (simp only: map_Player_Name seasonal_sorted_names)
  have 4: "sorted_wrt (\<lambda>a b. a \<ge> b) (map (\<lambda>e. ?h (Player_Name e)) ?out)"
    using seasonal_sorted_desc [of selected_users df] by (simp only: h [of ?h] s)
  have 5: "map Highest_Score_Seen ?out = map (\<lambda>e. format_thousands (?h (Player_Name e))) ?out"
    by (simp only: map_Highest f h [of "\<lambda>n. format_thousands (?h n)"])
  from 1 2 3 4 5 show ?thesis by blast
qed

text \<open>
  An instance: X, Y, Z are selected; Y has no observation, W is not selected.
\<close>

theorem seasonal_ranks_consecutive_sorted_witness:
  "seasonal_leaderboard [''X'', ''Y'', ''Z''] seasonal_df =
     [\<lparr>Rank = 1, Player_Name = ''Z'', Highest_Score_Seen = ''1,500''\<rparr>,
      \<lparr>Rank = 2, Player_Name = ''X'', Highest_Score_Seen = ''42''\<rparr>] \<and>
   [1..int (card (set [''X'', ''Y'', ''Z''] \<inter> name ` set seasonal_df))] = [1, 2] \<and>
   set (map Player_Name (seasonal_leaderboard [''X'', ''Y'', ''Z''] seasonal_df))
      = set [''X'', ''Y'', ''Z''] \<inter> name ` set seasonal_df"
proof -
  have e: "seasonal_leaderboard [''X'', ''Y'', ''Z''] seasonal_df =
     [\<lparr>Rank = 1, Player_Name = ''Z'', Highest_Score_Seen = ''1,500''\<rparr>,
      \<lparr>Rank = 2, Player_Name = ''X'', Highest_Score_Seen = ''42''\<rparr>]"
    by code_simp
  from seasonal_ranks_consecutive_sorted [of "[''X'', ''Y'', ''Z'']" seasonal_df] e
  show ?thesis by simp
qed

section \<open>The progression data\<close>

lemma pivot_table_eq:
  "pivot_table d =
     \<lparr>index = sort (remdups (map timestamp d)),
      cols = map (\<lambda>n. (n, map (cellv d n) (sort (remdups (map timestamp d)))))
               (sort (remdups (map name d)))\<rparr>"
  by (simp add: pivot_table_def Let_def cellv_def)

lemma sort_key_zip_sorted:
  assumes "sorted idx" "length c = length idx"
  shows "map snd (sort_key fst (zip idx c)) = c"
proof -
  have "map fst (zip idx c) = idx" using assms(2) by (simp add: map_fst_zip)
  with assms(1) have "sorted (map fst (zip idx c))" by simp
  then have "sort_key fst (zip idx c) = zip idx c" by (rule sort_key_id_if_sorted)
  then show ?thesis using assms(2) by (simp add: map_snd_zip)
qed

lemma sort_index_sorted:
  assumes "sorted idx" "\<And>n c. (n, c) \<in> set cs \<Longrightarrow> length c = length idx"
  shows "sort_index \<lparr>index = idx, cols = cs\<rparr> = \<lparr>index = idx, cols = cs\<rparr>"
proof -
  have "map (\<lambda>(n, c). (n, map snd (sort_key fst (zip idx c)))) cs = map (\<lambda>x. x) cs"
    by (rule map_cong [OF refl]) (auto simp: sort_key_zip_sorted assms)
  moreover have "sort idx = idx" using assms(1) by (simp add: sort_key_id_if_sorted)
  ultimately show ?thesis by (simp add: sort_index_def)
qed

lemma ffill_from_map:
  assumes "sorted I" "distinct I"
  shows "ffill_from p (map g I) = map (last_seen g I p) I"
  using assms
proof (induction I arbitrary: p)
  case Nil
  then show ?case by simp
next
  case (Cons a I)
  then have gt: "\<And>t. t \<in> set I \<Longrightarrow> a < t" by (auto simp: le_less)
  from Cons have sI: "sorted I" and dI: "distinct I" by simp_all
  let ?p' = "case g a of None \<Rightarrow> p | Some x \<Rightarrow> Some x"
  have head: "last_seen g (a # I) p a = ?p'"
  proof -
    have "{t' \<in> set (a # I). t' \<le> a \<and> g t' \<noteq> None} = (if g a = None then {} else {a})"
      using gt by (auto simp: not_le [symmetric] simp del: not_le)
    then show ?thesis by (auto simp: last_seen_def split: option.splits)
  qed
  have tail: "last_seen g I ?p' t = last_seen g (a # I) p t" if t: "t \<in> set I" for t
  proof -
    let ?S = "{t' \<in> set I. t' \<le> t \<and> g t' \<noteq> None}"
    have fin: "finite ?S" by simp
    have S: "{t' \<in> set (a # I). t' \<le> t \<and> g t' \<noteq> None} = (if g a = None then ?S else insert a ?S)"
      using gt [OF t] by auto
    show ?thesis
    proof (cases "g a")
      case None
      then show ?thesis unfolding last_seen_def S by auto
    next
      case (Some x)
      show ?thesis
      proof (cases "?S = {}")
        case True
        show ?thesis unfolding last_seen_def S True using Some by simp
      next
        case False
        have "a < Max ?S" using False fin gt by (subst Max_gr_iff) auto
        then have M: "Max (insert a ?S) = Max ?S" using False fin by (simp add: max_def)
        have "last_seen g (a # I) p t = g (Max (insert a ?S))"
          unfolding last_seen_def S using Some by simp
        moreover have "last_seen g I ?p' t = g (Max ?S)"
          unfolding last_seen_def using False by auto
        ultimately show ?thesis unfolding M by simp
      qed
    qed
  qed
  have "ffill_from p (map g (a # I)) = ?p' # ffill_from ?p' (map g I)"
    by (simp split: option.splits)
  also have "ffill_from ?p' (map g I) = map (last_seen g I ?p') I"
    using Cons.IH [OF sI dI] .
  also have "map (last_seen g I ?p') I = map (last_seen g (a # I) p) I"
    by (rule map_cong [OF refl]) (rule tail)
  finally show ?case using head by simp
qed


lemma melt_map:
  "melt \<lparr>index = I, cols = map (\<lambda>n. (n, map (h n) I)) N\<rparr>
     = concat (map (\<lambda>n. map (\<lambda>t. (t, n, h n t)) I) N)"
proof -
  have "zip I (map (h n) I) = map (\<lambda>t. (t, h n t)) I" for n
    by (simp add: zip_map2 zip_same_conv_map)
  then show ?thesis
    by (simp add: melt_def o_def)
qed

lemma filled_pivot:
  "clamp_negative (ffill (sort_index (pivot_table d)))
     = \<lparr>index = sort (remdups (map timestamp d)),
        cols = map (\<lambda>n. (n, map (filled d n) (sort (remdups (map timestamp d)))))
                 (sort (remdups (map name d)))\<rparr>"
proof -
  let ?I = "sort (remdups (map timestamp d))"
  let ?N = "sort (remdups (map name d))"
  have s: "sorted ?I" and dI: "distinct ?I" by simp_all
  have "sort_index (pivot_table d) = pivot_table d"
    unfolding pivot_table_eq by (rule sort_index_sorted) auto
  moreover have "map (\<lambda>(n, c). (n, map (map_option (\<lambda>x. if x < 0 then 0 else x)) c))
          (map (\<lambda>(n, c). (n, ffill_from None c)) (map (\<lambda>n. (n, map (cellv d n) ?I)) ?N))
      = map (\<lambda>n. (n, map (filled d n) ?I)) ?N"
    by (simp add: o_def ffill_from_map [OF s dI] filled_def)
  ultimately show ?thesis
    by (simp add: clamp_negative_def ffill_def pivot_table_eq)
qed

lemma progression_eq:
  "progression df =
     (let d = filter (\<lambda>r. name r \<in> set (top_names 20 df)) df
      in concat (map (\<lambda>n. map (\<lambda>t. (t, n, filled d n t)) (sort (remdups (map timestamp d))))
           (sort (remdups (map name d)))))"
  unfolding progression_def Let_def filled_pivot melt_map ..

lemma set_progression:
  "set (progression df) =
     (let d = filter (\<lambda>r. name r \<in> set (top_names 20 df)) df
      in {(t, n, filled d n t) | t n. t \<in> timestamp ` set d \<and> n \<in> name ` set d})"
  unfolding progression_eq Let_def by auto


lemma set_top_names: "set (top_names k df) \<subseteq> name ` set df"
proof -
  have "set (top_names k df) \<subseteq> set (map fst (sort_values_desc snd (entries (groupby_score_max df))))"
    unfolding top_names_def by (rule set_take_subset)
  also have "\<dots> = set (group_keys df)"
    by (simp add: groupby_score_max_def image_image)
  finally show ?thesis by simp
qed

lemma cohort_names:
  "name ` set (filter (\<lambda>r. name r \<in> set (top_names k df)) df) = set (top_names k df)"
  using set_top_names [of k df] by auto

lemma cellv_eq:
  "cellv d n t =
     (if {r \<in> set d. timestamp r = t \<and> name r = n} = {} then None
      else Some (Max (score ` {r \<in> set d. timestamp r = t \<and> name r = n})))"
proof -
  let ?xs = "map score (filter (\<lambda>r. timestamp r = t \<and> name r = n) d)"
  have 1: "set ?xs = score ` {r \<in> set d. timestamp r = t \<and> name r = n}" by auto
  have 2: "?xs = [] \<longleftrightarrow> {r \<in> set d. timestamp r = t \<and> name r = n} = {}"
    by (auto simp: filter_empty_conv)
  show ?thesis unfolding cellv_def series_max_def 1 2 ..
qed

lemma filled_eq_carried: "filled d n t = carried_value d n t"
proof -
  let ?I = "sort (remdups (map timestamp d))"
  let ?prior = "{r \<in> set d. name r = n \<and> timestamp r \<le> t}"
  let ?S = "{t' \<in> set ?I. t' \<le> t \<and> cellv d n t' \<noteq> None}"
  have S: "?S = timestamp ` ?prior"
  proof (intro set_eqI iffI)
    fix x assume "x \<in> ?S"
    then obtain xa where "xa \<in> set d" "timestamp xa = x" "name xa = n" "x \<le> t"
      by (auto simp: cellv_eq split: if_splits)
    then show "x \<in> timestamp ` ?prior" by force
  next
    fix x assume "x \<in> timestamp ` ?prior"
    then show "x \<in> ?S" by (auto simp: cellv_eq)
  qed
  show ?thesis
  proof (cases "?prior = {}")
    case True
    then have "?S = {}" unfolding S by simp
    then have "last_seen (cellv d n) ?I None t = None"
      unfolding last_seen_def by (simp only: if_True simp_thms)
    then show ?thesis unfolding filled_def carried_value_def Let_def using True by simp
  next
    case False
    let ?m = "Max (timestamp ` ?prior)"
    have fin: "finite (timestamp ` ?prior)" by simp
    have ne: "timestamp ` ?prior \<noteq> {}" using False by simp
    from Max_in [OF fin ne] obtain r0 where r0: "r0 \<in> ?prior" "timestamp r0 = ?m" by auto
    then have mt: "?m \<le> t" by auto
    have eq: "{r \<in> set d. timestamp r = ?m \<and> name r = n} = {r \<in> ?prior. timestamp r = ?m}"
      using mt by auto
    have "r0 \<in> {r \<in> ?prior. timestamp r = ?m}" using r0 by blast
    then have "{r \<in> ?prior. timestamp r = ?m} \<noteq> {}" by blast
    then have c: "cellv d n ?m = Some (Max (score ` {r \<in> ?prior. timestamp r = ?m}))"
      unfolding cellv_eq eq by simp
    have "?S \<noteq> {}" unfolding S using ne .
    then have "last_seen (cellv d n) ?I None t = cellv d n (Max ?S)"
      unfolding last_seen_def by (simp only: if_False)
    also have "\<dots> = cellv d n ?m" unfolding S ..
    finally have "last_seen (cellv d n) ?I None t = Some (Max (score ` {r \<in> ?prior. timestamp r = ?m}))"
      using c by simp
    then show ?thesis
      unfolding filled_def carried_value_def Let_def using False by (simp add: max_def)
  qed
qed




lemma progression_example:
  "progression progression_df =
     [(0, ''A'', Some 0), (1, ''A'', Some 3), (2, ''A'', Some 3), (3, ''A'', Some 6),
      (4, ''A'', Some 6), (0, ''B'', None), (1, ''B'', None), (2, ''B'', Some 5),
      (3, ''B'', Some 5), (4, ''B'', Some 8)]"
  by code_simp





lemma ffill_from_idem:
  "ffill_from (map_option f p) (map (map_option f) (ffill_from p c))
     = map (map_option f) (ffill_from p c)"
proof (induction c arbitrary: p)
  case Nil
  then show ?case by simp
next
  case (Cons v c)
  show ?case
  proof (cases v)
    case None
    then show ?thesis using Cons.IH [of p] by (cases p) simp_all
  next
    case (Some x)
    then show ?thesis using Cons.IH [of "Some x"] by simp
  qed
qed

lemma set_as_observations:
  "set (as_observations pts) =
     {\<lparr>name = n, timestamp = t, score = x\<rparr> | t n x. (t, n, Some x) \<in> set pts}"
  unfolding as_observations_def by (auto split: option.splits) 

lemma sort_remdups_cong:
  "set xs = set ys \<Longrightarrow> sort (remdups xs) = sort (remdups ys)"
  by (metis sorted_list_of_set_sort_remdups)

lemma filled_some:
  assumes "r \<in> set d"
  shows "\<exists>x. filled d (name r) (timestamp r) = Some x"
proof -
  have "r \<in> {r' \<in> set d. name r' = name r \<and> timestamp r' \<le> timestamp r}"
    using assms by simp
  then have "{r' \<in> set d. name r' = name r \<and> timestamp r' \<le> timestamp r} \<noteq> {}"
    by blast
  then show ?thesis unfolding filled_eq_carried carried_value_def Let_def by simp
qed


lemma length_top_names: "length (top_names k df) \<le> k"
  by (simp add: top_names_def)

lemma top_names_all:
  assumes "card (name ` set d) \<le> k"
  shows "set (top_names k d) = name ` set d"
proof -
  let ?xs = "map fst (sort_values_desc snd (entries (groupby_score_max d)))"
  have "length ?xs = length (group_keys d)"
    by (simp add: groupby_score_max_def sort_values_desc_def)
  also have "\<dots> = card (set (group_keys d))"
    by (rule distinct_card [symmetric]) (rule distinct_group_keys)
  also have "\<dots> = card (name ` set d)" by simp
  finally have "length ?xs \<le> k" using assms by simp
  then have "top_names k d = ?xs" unfolding top_names_def by simp
  moreover have "set ?xs = set (group_keys d)"
    by (simp add: groupby_score_max_def image_image)
  ultimately show ?thesis by simp
qed

lemma refill_fixpoint:
  "clamp_negative (ffill (sort_index (clamp_negative (ffill (sort_index (pivot_table d))))))
     = clamp_negative (ffill (sort_index (pivot_table d)))"
proof -
  let ?I = "sort (remdups (map timestamp d))"
  let ?N = "sort (remdups (map name d))"
  let ?f = "\<lambda>x::int. if x < 0 then 0 else x"
  let ?P = "\<lparr>index = ?I, cols = map (\<lambda>n. (n, map (filled d n) ?I)) ?N\<rparr>"
  have s: "sorted ?I" and dI: "distinct ?I" by simp_all
  have 1: "sort_index ?P = ?P"
    by (rule sort_index_sorted) auto
  have col: "map (map_option ?f) (ffill_from None (map (filled d n) ?I)) = map (filled d n) ?I" for n
  proof -
    let ?c = "ffill_from None (map (cellv d n) ?I)"
    have m: "map (filled d n) ?I = map (map_option ?f) ?c"
      by (simp add: ffill_from_map [OF s dI] filled_def)
    have "ffill_from None (map (map_option ?f) ?c) = map (map_option ?f) ?c"
      using ffill_from_idem [of ?f None "map (cellv d n) ?I"] by simp
    moreover have "map (map_option ?f) (map (map_option ?f) ?c) = map (map_option ?f) ?c"
    proof -
      have ff: "map_option ?f (map_option ?f v) = map_option ?f v" for v
        by (cases v) auto
      have "map (map_option ?f) (map (map_option ?f) ?c)
          = map (\<lambda>v. map_option ?f (map_option ?f v)) ?c"
        by (simp only: map_map o_def)
      also have "\<dots> = map (map_option ?f) ?c"
        by (simp only: ff)
      finally show ?thesis .
    qed
    ultimately show ?thesis unfolding m by simp
  qed
  have "map (\<lambda>(n, c). (n, map (map_option ?f) c))
          (map (\<lambda>(n, c). (n, ffill_from None c)) (map (\<lambda>n. (n, map (filled d n) ?I)) ?N))
      = map (\<lambda>n. (n, map (filled d n) ?I)) ?N"
    by (simp add: o_def col)
  then have "clamp_negative (ffill ?P) = ?P"
    by (simp add: clamp_negative_def ffill_def)
  then show ?thesis unfolding filled_pivot 1 .
qed

lemma progression_melt:
  "progression df
     = melt (clamp_negative (ffill (sort_index (pivot_table
         (filter (\<lambda>r. name r \<in> set (top_names 20 df)) df)))))"
  by (simp add: progression_def Let_def)


lemma cellv_as_observations:
  assumes "t \<in> timestamp ` set d" "n \<in> name ` set d"
    and "\<And>t' n' x. (t', n', Some x) \<in> set L \<longleftrightarrow>
           t' \<in> timestamp ` set d \<and> n' \<in> name ` set d \<and> filled d n' t' = Some x"
  shows "cellv (as_observations L) n t = filled d n t"
proof -
  let ?O = "as_observations L"
  have O: "{r \<in> set ?O. timestamp r = t \<and> name r = n}
      = {\<lparr>name = n, timestamp = t, score = x\<rparr> | x. filled d n t = Some x}"
    unfolding set_as_observations using assms by auto
  show ?thesis
  proof (cases "filled d n t")
    case None
    then have "{r \<in> set ?O. timestamp r = t \<and> name r = n} = {}" unfolding O by simp
    then show ?thesis unfolding cellv_eq using None by simp
  next
    case (Some x)
    then have "{r \<in> set ?O. timestamp r = t \<and> name r = n} = {\<lparr>name = n, timestamp = t, score = x\<rparr>}"
      unfolding O by auto
    then show ?thesis unfolding cellv_eq using Some by simp
  qed
qed

text \<open>
  Claim C7. Reading the long-form output back as observations at the same instants (a
  row with a NaN score is no observation) and running the resampler on them gives the
  same long-form output: the same cohort, the same time axis and the same filled values.
\<close>

theorem progression_idempotent:
  "progression (as_observations (progression df)) = progression df"
proof -
  let ?d = "filter (\<lambda>r. name r \<in> set (top_names 20 df)) df"
  let ?L = "progression df"
  let ?O = "as_observations ?L"
  let ?I = "sort (remdups (map timestamp ?d))"
  let ?N = "sort (remdups (map name ?d))"
  have L: "(t, n, Some x) \<in> set ?L \<longleftrightarrow>
             t \<in> timestamp ` set ?d \<and> n \<in> name ` set ?d \<and> filled ?d n t = Some x" for t n x
    unfolding set_progression Let_def by auto
  have O: "set ?O = {\<lparr>name = n, timestamp = t, score = x\<rparr> | t n x.
             t \<in> timestamp ` set ?d \<and> n \<in> name ` set ?d \<and> filled ?d n t = Some x}"
    unfolding set_as_observations L ..
  have in_O: "\<exists>x. \<lparr>name = name r, timestamp = timestamp r, score = x\<rparr> \<in> set ?O"
    if "r \<in> set ?d" for r
  proof -
    from filled_some [OF that] obtain x where "filled ?d (name r) (timestamp r) = Some x" ..
    with that have "\<lparr>name = name r, timestamp = timestamp r, score = x\<rparr> \<in> set ?O"
      unfolding O by blast
    then show ?thesis ..
  qed
  have names: "name ` set ?O = name ` set ?d"
  proof (intro set_eqI iffI)
    fix n assume "n \<in> name ` set ?O"
    then show "n \<in> name ` set ?d" unfolding O by auto
  next
    fix n assume "n \<in> name ` set ?d"
    then obtain r where r: "r \<in> set ?d" "name r = n" by auto
    from in_O [OF r(1)] obtain x
      where "\<lparr>name = name r, timestamp = timestamp r, score = x\<rparr> \<in> set ?O" ..
    then have "name \<lparr>name = name r, timestamp = timestamp r, score = x\<rparr> \<in> name ` set ?O"
      by (rule imageI)
    then show "n \<in> name ` set ?O" using r(2) by simp
  qed
  have times: "timestamp ` set ?O = timestamp ` set ?d"
  proof (intro set_eqI iffI)
    fix t assume "t \<in> timestamp ` set ?O"
    then show "t \<in> timestamp ` set ?d" unfolding O by auto
  next
    fix t assume "t \<in> timestamp ` set ?d"
    then obtain r where r: "r \<in> set ?d" "timestamp r = t" by auto
    from in_O [OF r(1)] obtain x
      where "\<lparr>name = name r, timestamp = timestamp r, score = x\<rparr> \<in> set ?O" ..
    then have "timestamp \<lparr>name = name r, timestamp = timestamp r, score = x\<rparr> \<in> timestamp ` set ?O"
      by (rule imageI)
    then show "t \<in> timestamp ` set ?O" using r(2) by simp
  qed
  have "card (name ` set ?d) = card (set (top_names 20 df))"
    by (simp only: cohort_names)
  also have "\<dots> \<le> length (top_names 20 df)" by (rule card_length)
  also have "\<dots> \<le> 20" by (rule length_top_names)
  finally have "card (name ` set ?O) \<le> 20" unfolding names .
  then have "set (top_names 20 ?O) = name ` set ?O" by (rule top_names_all)
  then have filt: "filter (\<lambda>r. name r \<in> set (top_names 20 ?O)) ?O = ?O"
    by simp
  have I: "sort (remdups (map timestamp ?O)) = ?I"
    by (rule sort_remdups_cong) (simp only: set_map times)
  have N: "sort (remdups (map name ?O)) = ?N"
    by (rule sort_remdups_cong) (simp only: set_map names)
  have cell: "cellv ?O n t = filled ?d n t" if "t \<in> set ?I" "n \<in> set ?N" for n t
    using that by (intro cellv_as_observations L) simp_all
  have cols: "map (\<lambda>n. (n, map (cellv ?O n) ?I)) ?N = map (\<lambda>n. (n, map (filled ?d n) ?I)) ?N"
    by (intro map_cong refl) (simp add: cell)
  have piv: "pivot_table ?O = clamp_negative (ffill (sort_index (pivot_table ?d)))"
    unfolding filled_pivot pivot_table_eq [of ?O] I N cols ..
  have "progression ?O = melt (clamp_negative (ffill (sort_index (pivot_table ?O))))"
    unfolding progression_melt [of ?O] filt ..
  also have "\<dots> = melt (clamp_negative (ffill (sort_index (pivot_table ?d))))"
    unfolding piv refill_fixpoint ..
  also have "\<dots> = ?L" unfolding progression_melt ..
  finally show ?thesis .
qed


text \<open>An instance: the observations read back from the output of the example.\<close>

theorem progression_idempotent_witness:
  "as_observations (progression progression_df) =
     [\<lparr>name = ''A'', timestamp = 0, score = 0\<rparr>, \<lparr>name = ''A'', timestamp = 1, score = 3\<rparr>,
      \<lparr>name = ''A'', timestamp = 2, score = 3\<rparr>, \<lparr>name = ''A'', timestamp = 3, score = 6\<rparr>,
      \<lparr>name = ''A'', timestamp = 4, score = 6\<rparr>, \<lparr>name = ''B'', timestamp = 2, score = 5\<rparr>,
      \<lparr>name = ''B'', timestamp = 3, score = 5\<rparr>, \<lparr>name = ''B'', timestamp = 4, score = 8\<rparr>] \<and>
   progression (as_observations (progression progression_df)) = progression progression_df"
proof -
  have "as_observations (progression progression_df) =
     [\<lparr>name = ''A'', timestamp = 0, score = 0\<rparr>, \<lparr>name = ''A'', timestamp = 1, score = 3\<rparr>,
      \<lparr>name = ''A'', timestamp = 2, score = 3\<rparr>, \<lparr>name = ''A'', timestamp = 3, score = 6\<rparr>,
      \<lparr>name = ''A'', timestamp = 4, score = 6\<rparr>, \<lparr>name = ''B'', timestamp = 2, score = 5\<rparr>,
      \<lparr>name = ''B'', timestamp = 3, score = 5\<rparr>, \<lparr>name = ''B'', timestamp = 4, score = 8\<rparr>]"
    unfolding progression_example by (simp add: as_observations_def)
  with progression_idempotent [of progression_df] show ?thesis by (intro conjI)
qed

section \<open>Loading: an unparsable timestamp ends the script\<close>


lemma to_datetime_succeeds:
  "\<forall>s \<in> set ss. strptime s \<noteq> None \<Longrightarrow>
     \<exists>ts. to_datetime strptime ss = Inr ts \<and> length ts = length ss"
  by (induction ss) auto


text \<open>When every timestamp parses, the frame has one row per row of the file.\<close>

lemma load_frame_keeps_rows:
  assumes "\<forall>r \<in> set csv. strptime (csv_timestamp r) \<noteq> None"
  shows "\<exists>df. load_frame strptime csv = Inr df \<and> length df = length csv"
proof -
  from assms have "\<forall>s \<in> set (map csv_timestamp csv). strptime s \<noteq> None" by auto
  from to_datetime_succeeds [OF this] obtain ts
    where "to_datetime strptime (map csv_timestamp csv) = Inr ts" "length ts = length csv"
    by auto
  then show ?thesis by (simp add: load_frame_def)
qed



section \<open>The computations leave the loaded frame alone\<close>

















end
